theory Spec2Isabelle
  imports Complex_Main
begin

section \<open>Series operations\<close>

text \<open>
  The pandas Series operations the scripts use, on a column held as a list in index order.
  \<open>cumsum\<close> and \<open>cumprod\<close> run an accumulator along the column; \<open>shift\<close> moves the
  values by \<open>periods\<close> places and fills the vacated places with \<open>fill_value\<close>.
  Integer columns are \<open>int\<close>; float64 columns are modelled by exact \<open>real\<close> arithmetic.
\<close>

primrec cumsum_from :: "'a::monoid_add \<Rightarrow> 'a list \<Rightarrow> 'a list" where
  "cumsum_from acc [] = []"
| "cumsum_from acc (x # xs) = (acc + x) # cumsum_from (acc + x) xs"

definition cumsum :: "'a::monoid_add list \<Rightarrow> 'a list" where
  "cumsum xs = cumsum_from 0 xs"

primrec cumprod_from :: "'a::monoid_mult \<Rightarrow> 'a list \<Rightarrow> 'a list" where
  "cumprod_from acc [] = []"
| "cumprod_from acc (x # xs) = (acc * x) # cumprod_from (acc * x) xs"

definition cumprod :: "'a::monoid_mult list \<Rightarrow> 'a list" where
  "cumprod xs = cumprod_from 1 xs"

definition shift :: "int \<Rightarrow> 'a \<Rightarrow> 'a list \<Rightarrow> 'a list" where
  "shift periods fill_value xs =
     (if 0 \<le> periods
      then replicate (min (nat periods) (length xs)) fill_value
           @ take (length xs - nat periods) xs
      else drop (nat (- periods)) xs
           @ replicate (min (nat (- periods)) (length xs)) fill_value)"

section \<open>durations_to_survival.py\<close>

text \<open>
  A row of the durations table, with the two columns the script reads.
\<close>

record 'd duration_row =
  duration_days :: 'd
  endpoint_observed :: bool

text \<open>
  Line 18 replaces the \<open>duration_days\<close> column by its bucket. The script rounds up
  (\<open>np.ceil(...).astype(int)\<close>); the bucket function is a parameter here and
  \<open>ceil_days\<close> is the script's choice.
\<close>

definition bucketed :: "('d \<Rightarrow> 'k) \<Rightarrow> 'd duration_row list \<Rightarrow> 'k duration_row list" where
  "bucketed bucket_fn durations =
     map (\<lambda>r. \<lparr>duration_days = bucket_fn (duration_days r),
               endpoint_observed = endpoint_observed r\<rparr>) durations"

definition ceil_days :: "real \<Rightarrow> int" where
  "ceil_days d = \<lceil>d\<rceil>"

text \<open>
  \<open>durations.groupby("duration_days")\<close>: the group keys are the distinct values of the
  column in ascending order; \<open>grp.size()\<close> counts the rows of each group and
  \<open>grp["endpoint_observed"].sum()\<close> adds its booleans up.
\<close>

definition group_keys :: "('k::linorder) duration_row list \<Rightarrow> 'k list" where
  "group_keys durations = sort (remdups (map duration_days durations))"

definition get_group :: "'k duration_row list \<Rightarrow> 'k \<Rightarrow> 'k duration_row list" where
  "get_group durations k = filter (\<lambda>r. duration_days r = k) durations"

definition grp_size :: "('k::linorder) duration_row list \<Rightarrow> int list" where
  "grp_size durations = map (\<lambda>k. int (length (get_group durations k))) (group_keys durations)"

definition grp_sum_observed :: "('k::linorder) duration_row list \<Rightarrow> int list" where
  "grp_sum_observed durations =
     map (\<lambda>k. sum_list (map (\<lambda>r. if endpoint_observed r then 1 else 0) (get_group durations k)))
       (group_keys durations)"

text \<open>
  Lines 30 to 32: \<open>prior_count\<close> is the running total of \<open>num_obs\<close> moved one row down,
  and \<open>at_risk\<close> is its complement in the number of subjects.
\<close>

definition prior_count :: "('k::linorder) duration_row list \<Rightarrow> int list" where
  "prior_count durations = shift 1 0 (cumsum (grp_size durations))"

definition at_risk_col :: "('k::linorder) duration_row list \<Rightarrow> int list" where
  "at_risk_col durations =
     (let num_subjects = int (length durations)
      in map (\<lambda>p. num_subjects - p) (prior_count durations))"

text \<open>The survival frame after line 32, one row for each group key.\<close>

record 'k count_row =
  bucket :: 'k
  at_risk :: int
  num_obs :: int
  events :: int

definition counts :: "('k::linorder) duration_row list \<Rightarrow> 'k count_row list" where
  "counts durations =
     map (\<lambda>i. \<lparr>bucket = group_keys durations ! i,
               at_risk = at_risk_col durations ! i,
               num_obs = grp_size durations ! i,
               events = grp_sum_observed durations ! i\<rparr>)
       [0 ..< length (group_keys durations)]"

text \<open>Line 36: keep only the rows with at least one event.\<close>

definition with_events :: "('k::linorder) duration_row list \<Rightarrow> 'k count_row list" where
  "with_events durations = filter (\<lambda>r. events r > 0) (counts durations)"

text \<open>
  Lines 45 to 49, 55 to 59 and 90: the columns added to the filtered frame.
  The divisions are float divisions of the integer columns.
\<close>

definition censored_col :: "'k count_row list \<Rightarrow> int list" where
  "censored_col rows =
     map (\<lambda>(a, n, e). a - n - e)
       (zip (map at_risk rows) (zip (shift (- 1) 0 (map at_risk rows)) (map events rows)))"

definition hazard :: "'k count_row \<Rightarrow> real" where
  "hazard r = real_of_int (events r) / real_of_int (at_risk r)"

definition inverse_hazard :: "'k count_row list \<Rightarrow> real list" where
  "inverse_hazard rows = map (\<lambda>r. 1 - hazard r) rows"

definition survival_proba_col :: "'k count_row list \<Rightarrow> real list" where
  "survival_proba_col rows = cumprod (inverse_hazard rows)"

definition conversion_pct_col :: "'k count_row list \<Rightarrow> real list" where
  "conversion_pct_col rows = map (\<lambda>s. 100 * (1 - s)) (survival_proba_col rows)"

definition cumulative_hazard_col :: "'k count_row list \<Rightarrow> real list" where
  "cumulative_hazard_col rows = cumsum (map hazard rows)"

record 'k survival_row = "'k count_row" +
  censored :: int
  survival_proba :: real
  conversion_pct :: real
  cumulative_hazard :: real

definition survival_of :: "('k::linorder) duration_row list \<Rightarrow> 'k survival_row list" where
  "survival_of durations =
     (let rows = with_events durations
      in map (\<lambda>i. count_row.extend (rows ! i)
                    (survival_row.fields
                      (censored_col rows ! i)
                      (survival_proba_col rows ! i)
                      (conversion_pct_col rows ! i)
                      (cumulative_hazard_col rows ! i)))
           [0 ..< length rows])"

text \<open>The whole script: bucket the durations, then build the survival table.\<close>

definition survival :: "('d \<Rightarrow> 'k::linorder) \<Rightarrow> 'd duration_row list \<Rightarrow> 'k survival_row list" where
  "survival bucket_fn durations = survival_of (bucketed bucket_fn durations)"

section \<open>Event logs as data frames\<close>

text \<open>
  A pandas DataFrame is held as the list of its column names and the list of its rows in
  order, each row with its index label. Labels are integers. A row maps a column name to
  its cell; only the columns the frame lists are ever read, and reading a column that a
  frame does not list raises \<open>KeyError\<close>. Cells are integers (unit identifiers,
  timestamps in milliseconds, event types by an integer code). A missing value (\<open>NaN\<close>,
  \<open>NaT\<close>) of a computed column is \<open>None\<close>.
\<close>

type_synonym row = "string \<Rightarrow> int"

record frame =
  columns :: "string list"
  labelled :: "(int \<times> row) list"

text \<open>The default index of a frame that \<open>pd.read_csv\<close> returns: a row's label is its position.\<close>

definition range_frame :: "string list \<Rightarrow> row list \<Rightarrow> frame" where
  "range_frame cols rs = \<lparr>columns = cols, labelled = zip (map int [0 ..< length rs]) rs\<rparr>"

text \<open>
  The exceptions the two functions can meet: the module-level name \<open>df\<close> is unbound, a
  frame lacks a column, \<open>iloc\<close> is given a position outside the frame, or a column is
  assigned from a series whose index holds a label twice.
\<close>

datatype error = NameError | KeyError | IndexError | ValueError

definition bind_err :: "error + 'a \<Rightarrow> ('a \<Rightarrow> error + 'b) \<Rightarrow> error + 'b" where
  "bind_err m f = (case m of Inl e \<Rightarrow> Inl e | Inr x \<Rightarrow> f x)"

text \<open>
  \<open>frame[name]\<close>, and the column lookup of \<open>groupby(name)\<close> and of \<open>grp[name]\<close>: the
  series of the column, each value with the label of its row.
\<close>

definition has_column :: "string \<Rightarrow> frame \<Rightarrow> error + unit" where
  "has_column c fr = (if c \<in> set (columns fr) then Inr () else Inl KeyError)"

definition column :: "string \<Rightarrow> frame \<Rightarrow> error + (int \<times> int) list" where
  "column c fr =
     (if c \<in> set (columns fr) then Inr (map (\<lambda>(l, r). (l, r c)) (labelled fr))
      else Inl KeyError)"

text \<open>\<open>Series.min\<close> and \<open>Series.max\<close>; an empty series has no extremum.\<close>

definition series_min :: "int list \<Rightarrow> int option" where
  "series_min xs = (case xs of [] \<Rightarrow> None | x # rest \<Rightarrow> Some (fold min rest x))"

definition series_max :: "int list \<Rightarrow> int option" where
  "series_max xs = (case xs of [] \<Rightarrow> None | x # rest \<Rightarrow> Some (fold max rest x))"

text \<open>\<open>Series.idxmin\<close>: the label of the first row that holds the minimum.\<close>

fun idxmin_from :: "int \<times> int \<Rightarrow> (int \<times> int) list \<Rightarrow> int" where
  "idxmin_from (l, v) [] = l"
| "idxmin_from (l, v) ((m, w) # rest) =
     (if w < v then idxmin_from (m, w) rest else idxmin_from (l, v) rest)"

definition idxmin :: "(int \<times> int) list \<Rightarrow> int option" where
  "idxmin xs = (case xs of [] \<Rightarrow> None | x # rest \<Rightarrow> Some (idxmin_from x rest))"

text \<open>
  \<open>groupby(unit)\<close> on the rows of a frame: the keys are the distinct values of the column
  in ascending order, and each aggregate is a series indexed by the keys.
\<close>

definition groupby_keys :: "string \<Rightarrow> (int \<times> row) list \<Rightarrow> int list" where
  "groupby_keys unit lrows = sort (remdups (map (\<lambda>(l, r). r unit) lrows))"

definition rows_of :: "string \<Rightarrow> (int \<times> row) list \<Rightarrow> int \<Rightarrow> (int \<times> row) list" where
  "rows_of unit lrows k = filter (\<lambda>(l, r). r unit = k) lrows"

definition groupby_min :: "string \<Rightarrow> string \<Rightarrow> (int \<times> row) list \<Rightarrow> (int \<times> int option) list" where
  "groupby_min unit col lrows =
     map (\<lambda>k. (k, series_min (map (\<lambda>(l, r). r col) (rows_of unit lrows k))))
       (groupby_keys unit lrows)"

definition groupby_idxmin :: "string \<Rightarrow> string \<Rightarrow> (int \<times> row) list \<Rightarrow> (int \<times> int) list" where
  "groupby_idxmin unit col lrows =
     concat (map (\<lambda>k. case idxmin (map (\<lambda>(l, r). (l, r col)) (rows_of unit lrows k)) of
                         None \<Rightarrow> [] | Some l \<Rightarrow> [(k, l)])
               (groupby_keys unit lrows))"

text \<open>\<open>frame.loc[frame[event].isin(values)]\<close>: the rows kept hold their labels.\<close>

definition loc_isin :: "string \<Rightarrow> int list \<Rightarrow> (int \<times> row) list \<Rightarrow> (int \<times> row) list" where
  "loc_isin event vals lrows = filter (\<lambda>(l, r). r event \<in> set vals) lrows"

text \<open>
  \<open>frame.iloc[positions]\<close> takes rows by position, a negative position counting from the
  end, and raises when a position is outside the frame.
\<close>

definition iloc :: "frame \<Rightarrow> int list \<Rightarrow> error + frame" where
  "iloc fr positions =
     (let n = int (length (labelled fr))
      in if list_all (\<lambda>p. - n \<le> p \<and> p < n) positions
         then Inr \<lparr>columns = columns fr,
                   labelled = map (\<lambda>p. labelled fr ! nat (if p < 0 then n + p else p))
                                positions\<rparr>
         else Inl IndexError)"

text \<open>
  \<open>frame.set_index(unit)\<close>: the values of the column become the labels, and the column
  leaves the columns of the frame.
\<close>

definition set_index :: "string \<Rightarrow> frame \<Rightarrow> error + frame" where
  "set_index unit fr =
     (if unit \<in> set (columns fr)
      then Inr \<lparr>columns = removeAll unit (columns fr),
                labelled = map (\<lambda>(l, r). (r unit, r)) (labelled fr)\<rparr>
      else Inl KeyError)"

text \<open>
  \<open>frame[name] = series\<close> aligns the series on the index of the frame: a label of the
  frame that the series lacks gets a missing value, and a series whose index holds a
  label twice cannot be aligned on an index without repeats.
\<close>

definition assign_aligned :: "int list \<Rightarrow> (int \<times> 'a) list \<Rightarrow> error + 'a option list" where
  "assign_aligned index series =
     (if distinct (map fst series) then Inr (map (map_of series) index) else Inl ValueError)"

definition fillna :: "'a option \<Rightarrow> 'a option \<Rightarrow> 'a option" where
  "fillna x v = (case x of None \<Rightarrow> v | Some y \<Rightarrow> Some y)"

definition minus_na :: "int option \<Rightarrow> int option \<Rightarrow> int option" where
  "minus_na x y = (case (x, y) of (Some a, Some b) \<Rightarrow> Some (a - b) | _ \<Rightarrow> None)"

definition notnull :: "'a option \<Rightarrow> bool" where
  "notnull x = (x \<noteq> None)"

text \<open>The module-level name \<open>df\<close>: \<open>None\<close> when it is unbound.\<close>

definition global_df :: "frame option \<Rightarrow> error + frame" where
  "global_df df = (case df of None \<Rightarrow> Inl NameError | Some fr \<Rightarrow> Inr fr)"

section \<open>events_to_durations.py\<close>

record duration_record =
  entry_time :: "int option"
  endpoint :: "int option"
  endpoint_time :: "int option"
  final_obs_time :: "int option"
  duration :: "int option"

text \<open>
  \<open>events_to_durations\<close>, lines 42 to 70, statement by statement. The function reads
  the module-level name \<open>df\<close> at lines 54 and 63, and at line 63 the column named
  \<open>timestamp\<close> whatever the \<open>timestamp\<close> argument is; \<open>df\<close> is the first argument of
  the model. The result is the durations frame in index order, each row with its unit.
\<close>

definition events_to_durations ::
  "frame option \<Rightarrow> frame \<Rightarrow> string \<Rightarrow> string \<Rightarrow> string \<Rightarrow> int list
     \<Rightarrow> error + (int \<times> duration_record) list" where
  "events_to_durations df event_log unit timestamp event endpoints =
     bind_err (has_column unit event_log) (\<lambda>_.
     bind_err (has_column timestamp event_log) (\<lambda>_.
     let durations = groupby_min unit timestamp (labelled event_log)
     in
     bind_err (has_column event event_log) (\<lambda>_.
     let df_endpoint = loc_isin event endpoints (labelled event_log);
         endpoint_events = groupby_idxmin unit timestamp df_endpoint
     in
     bind_err (global_df df) (\<lambda>df.
     bind_err (iloc df (map snd endpoint_events)) (\<lambda>picked.
     bind_err (set_index unit picked) (\<lambda>df_endpoint.
     bind_err (column event df_endpoint) (\<lambda>endpoint_series.
     bind_err (assign_aligned (map fst durations) endpoint_series) (\<lambda>endpoint_col.
     bind_err (column timestamp df_endpoint) (\<lambda>endpoint_time_series.
     bind_err (assign_aligned (map fst durations) endpoint_time_series) (\<lambda>endpoint_time_col.
     bind_err (column ''timestamp'' df) (\<lambda>df_timestamp.
     let censoring_time = series_max (map snd df_timestamp)
     in
     Inr (map (\<lambda>((k, entry), ep, ept).
                 (k, \<lparr>entry_time = entry,
                      endpoint = ep,
                      endpoint_time = ept,
                      final_obs_time = fillna ept censoring_time,
                      duration = minus_na (fillna ept censoring_time) entry\<rparr>))
            (zip durations (zip endpoint_col endpoint_time_col))))))))))))))"

text \<open>Line 109 of the script: the censoring flag of a duration record.\<close>

definition observed :: "duration_record \<Rightarrow> bool" where
  "observed r = notnull (endpoint r)"

section \<open>events_to_conversions.py\<close>

record conversion_record =
  ttc_entry_time :: "int option"
  conversion_time :: "int option"
  conversion_event :: "int option"
  ttc_final_obs_time :: "int option"
  ttc_duration :: "int option"

text \<open>
  \<open>events_to_conversions\<close>, lines 40 to 66, statement by statement. Every frame
  operation of the body is on the module-level \<open>df\<close>; the \<open>data\<close> argument is never
  read.
\<close>

definition events_to_conversions ::
  "frame option \<Rightarrow> frame \<Rightarrow> string \<Rightarrow> string \<Rightarrow> string \<Rightarrow> int list
     \<Rightarrow> error + (int \<times> conversion_record) list" where
  "events_to_conversions df data unit timestamp event conversion_events =
     bind_err (global_df df) (\<lambda>df.
     bind_err (has_column unit df) (\<lambda>_.
     bind_err (has_column timestamp df) (\<lambda>_.
     let ttc = groupby_min unit timestamp (labelled df)
     in
     bind_err (has_column event df) (\<lambda>_.
     let df_convert = loc_isin event conversion_events (labelled df);
         conversions = groupby_idxmin unit timestamp df_convert
     in
     bind_err (iloc df (map snd conversions)) (\<lambda>picked.
     bind_err (set_index unit picked) (\<lambda>df_convert.
     bind_err (column timestamp df_convert) (\<lambda>conversion_time_series.
     bind_err (assign_aligned (map fst ttc) conversion_time_series) (\<lambda>conversion_time_col.
     bind_err (column event df_convert) (\<lambda>conversion_event_series.
     bind_err (assign_aligned (map fst ttc) conversion_event_series) (\<lambda>conversion_event_col.
     bind_err (column ''timestamp'' df) (\<lambda>df_timestamp.
     let censoring_time = series_max (map snd df_timestamp)
     in
     Inr (map (\<lambda>((k, entry), ct, ce).
                 (k, \<lparr>ttc_entry_time = entry,
                      conversion_time = ct,
                      conversion_event = ce,
                      ttc_final_obs_time = fillna ct censoring_time,
                      ttc_duration = minus_na (fillna ct censoring_time) entry\<rparr>))
            (zip ttc (zip conversion_time_col conversion_event_col))))))))))))))"

text \<open>
  The event log of the scripts: the columns of \<open>events.csv\<close> and the default index.
  \<open>event_row\<close> is a row of it with the three columns the scripts name.
\<close>

definition event_row :: "int \<Rightarrow> int \<Rightarrow> int \<Rightarrow> row" where
  "event_row visitorid timestamp event =
     (\<lambda>c. if c = ''visitorid'' then visitorid
          else if c = ''timestamp'' then timestamp
          else if c = ''event'' then event
          else 0)"

definition events_frame :: "row list \<Rightarrow> frame" where
  "events_frame rs =
     range_frame [''timestamp'', ''visitorid'', ''event'', ''itemid'', ''transactionid''] rs"

section \<open>Counting definitions and the worked example\<close>

text \<open>
  The life-table columns as the specification words them, by counting records directly:
  the units at risk at a bucket are the records whose bucketed duration is at least the
  bucket, the events of a bucket are its records with the endpoint observed.
  The script computes neither this way; the theorems below compare the two.
\<close>

definition at_risk_direct :: "('k::linorder) duration_row list \<Rightarrow> 'k \<Rightarrow> int" where
  "at_risk_direct durations k = int (length (filter (\<lambda>r. k \<le> duration_days r) durations))"

definition events_direct :: "'k duration_row list \<Rightarrow> 'k \<Rightarrow> int" where
  "events_direct durations k =
     int (length (filter (\<lambda>r. duration_days r = k \<and> endpoint_observed r) durations))"

text \<open>Scenario A of the specification: seven records, bucketed by the identity.\<close>

definition scenario_A :: "int duration_row list" where
  "scenario_A =
     [\<lparr>duration_days = 1, endpoint_observed = True\<rparr>,
      \<lparr>duration_days = 1, endpoint_observed = True\<rparr>,
      \<lparr>duration_days = 2, endpoint_observed = True\<rparr>,
      \<lparr>duration_days = 3, endpoint_observed = False\<rparr>,
      \<lparr>duration_days = 3, endpoint_observed = True\<rparr>,
      \<lparr>duration_days = 3, endpoint_observed = True\<rparr>,
      \<lparr>duration_days = 4, endpoint_observed = True\<rparr>]"

section \<open>Properties of the series operations\<close>

lemma length_cumsum_from: "length (cumsum_from a xs) = length xs"
  by (induction xs arbitrary: a) simp_all

lemma cumsum_from_nth:
  "i < length xs \<Longrightarrow> cumsum_from a xs ! i = a + sum_list (take (Suc i) xs)"
proof (induction xs arbitrary: a i)
  case Nil
  then show ?case by simp
next
  case (Cons x xs)
  show ?case
  proof (cases i)
    case 0
    then show ?thesis by simp
  next
    case (Suc k)
    with Cons.prems have "k < length xs" by simp
    from Cons.IH [OF this, of "a + x"] Suc show ?thesis
      by (simp add: add.assoc)
  qed
qed

lemma length_cumsum: "length (cumsum xs) = length xs"
  by (simp add: cumsum_def length_cumsum_from)

lemma cumsum_nth: "i < length xs \<Longrightarrow> cumsum xs ! i = sum_list (take (Suc i) xs)"
  by (simp add: cumsum_def cumsum_from_nth)

lemma length_cumprod_from: "length (cumprod_from a xs) = length xs"
  by (induction xs arbitrary: a) simp_all

lemma cumprod_from_nth:
  "i < length xs \<Longrightarrow> cumprod_from a xs ! i = a * prod_list (take (Suc i) xs)"
proof (induction xs arbitrary: a i)
  case Nil
  then show ?case by simp
next
  case (Cons x xs)
  show ?case
  proof (cases i)
    case 0
    then show ?thesis by simp
  next
    case (Suc k)
    with Cons.prems have "k < length xs" by simp
    from Cons.IH [OF this, of "a * x"] Suc show ?thesis
      by (simp add: mult.assoc)
  qed
qed

lemma length_cumprod: "length (cumprod xs) = length xs"
  by (simp add: cumprod_def length_cumprod_from)

lemma cumprod_nth: "i < length xs \<Longrightarrow> cumprod xs ! i = prod_list (take (Suc i) xs)"
  by (simp add: cumprod_def cumprod_from_nth)

lemma length_shift: "length (shift p z xs) = length xs"
  by (auto simp: shift_def)

lemma shift_down_nth:
  "i < length xs \<Longrightarrow> shift 1 z xs ! i = (if i = 0 then z else xs ! (i - 1))"
  by (cases xs) (auto simp: shift_def nth_append nth_Cons')

lemma shift_up_nth:
  "i < length xs \<Longrightarrow> shift (- 1) z xs ! i = (if Suc i < length xs then xs ! Suc i else z)"
  by (cases xs) (auto simp: shift_def nth_append nth_Cons')

lemma sum_list_take_Suc_nth:
  fixes xs :: "'a::comm_monoid_add list"
  shows "i < length xs \<Longrightarrow> sum_list (take (Suc i) xs) = (\<Sum>j\<le>i. xs ! j)"
  by (induction i) (simp_all add: take_Suc_conv_app_nth flip: add.assoc mult.assoc)

lemma prod_list_take_Suc_nth:
  fixes xs :: "'a::comm_monoid_mult list"
  shows "i < length xs \<Longrightarrow> prod_list (take (Suc i) xs) = (\<Prod>j\<le>i. xs ! j)"
  by (induction i) (simp_all add: take_Suc_conv_app_nth flip: add.assoc mult.assoc)

section \<open>Grouping and the at-risk count\<close>

lemma sorted_group_keys: "sorted (group_keys ds)"
  by (simp add: group_keys_def)

lemma distinct_group_keys: "distinct (group_keys ds)"
  by (simp add: group_keys_def)

lemma set_group_keys: "set (group_keys ds) = duration_days ` set ds"
  by (simp add: group_keys_def)

lemma strict_sorted_group_keys: "sorted_wrt (<) (group_keys ds)"
  by (simp add: strict_sorted_iff sorted_group_keys distinct_group_keys)

lemma length_filter_split:
  "k \<notin> S \<Longrightarrow>
   length (filter (\<lambda>r. g r = k \<or> g r \<in> S) ds)
     = length (filter (\<lambda>r. g r = k) ds) + length (filter (\<lambda>r. g r \<in> S) ds)"
  by (induction ds) auto

lemma sum_group_sizes:
  "distinct ks \<Longrightarrow>
   (\<Sum>k\<leftarrow>ks. int (length (get_group ds k)))
     = int (length (filter (\<lambda>r. duration_days r \<in> set ks) ds))"
proof (induction ks)
  case Nil
  then show ?case by simp
next
  case (Cons k ks)
  then have "k \<notin> set ks" and "distinct ks" by simp_all
  with Cons.IH length_filter_split [of k "set ks" duration_days ds]
  show ?case by (simp add: get_group_def)
qed

lemma before_key_iff:
  fixes ks :: "'k::linorder list"
  assumes "sorted_wrt (<) ks" and "i < length ks" and "x \<in> set ks"
  shows "x \<in> set (take i ks) \<longleftrightarrow> x < ks ! i"
proof
  assume "x \<in> set (take i ks)"
  then obtain j where "j < i" and "x = ks ! j"
    using assms(2) by (auto simp: in_set_conv_nth)
  with assms(1,2) show "x < ks ! i"
    by (simp add: sorted_wrt_nth_less)
next
  assume lt: "x < ks ! i"
  from assms(3) obtain j where j: "j < length ks" "x = ks ! j"
    by (auto simp: in_set_conv_nth)
  have "j < i"
  proof (rule ccontr)
    assume "\<not> j < i"
    then have "i = j \<or> i < j" by auto
    then have "ks ! i \<le> ks ! j"
      using assms(1) j(1) by (auto simp: sorted_wrt_nth_less less_imp_le)
    with lt j(2) show False by simp
  qed
  with j show "x \<in> set (take i ks)"
    by (auto simp: in_set_conv_nth)
qed

lemma length_grp_size: "length (grp_size ds) = length (group_keys ds)"
  by (simp add: grp_size_def)

lemma length_prior_count: "length (prior_count ds) = length (group_keys ds)"
  by (simp add: prior_count_def length_shift length_cumsum length_grp_size)

lemma length_at_risk_col: "length (at_risk_col ds) = length (group_keys ds)"
  by (simp add: at_risk_col_def length_prior_count)

lemma prior_count_nth:
  assumes "i < length (group_keys ds)"
  shows "prior_count ds ! i = sum_list (take i (grp_size ds))"
proof (cases i)
  case 0
  with assms show ?thesis
    by (simp add: prior_count_def shift_down_nth length_cumsum length_grp_size)
next
  case (Suc k)
  with assms show ?thesis
    by (simp add: prior_count_def shift_down_nth length_cumsum length_grp_size cumsum_nth)
qed

lemma prior_count_counts_earlier:
  assumes "i < length (group_keys ds)"
  shows "prior_count ds ! i
           = int (length (filter (\<lambda>r. duration_days r < group_keys ds ! i) ds))"
proof -
  let ?ks = "group_keys ds"
  have "prior_count ds ! i = (\<Sum>k\<leftarrow>take i ?ks. int (length (get_group ds k)))"
    using assms by (simp add: prior_count_nth grp_size_def take_map)
  also have "\<dots> = int (length (filter (\<lambda>r. duration_days r \<in> set (take i ?ks)) ds))"
    by (rule sum_group_sizes) (simp add: distinct_group_keys)
  also have "filter (\<lambda>r. duration_days r \<in> set (take i ?ks)) ds
               = filter (\<lambda>r. duration_days r < ?ks ! i) ds"
  proof (rule filter_cong [OF refl])
    fix r assume "r \<in> set ds"
    then have "duration_days r \<in> set ?ks" by (simp add: set_group_keys)
    with assms show "duration_days r \<in> set (take i ?ks) \<longleftrightarrow> duration_days r < ?ks ! i"
      by (simp add: before_key_iff strict_sorted_group_keys)
  qed
  finally show ?thesis .
qed

lemma at_risk_col_nth:
  assumes "i < length (group_keys ds)"
  shows "at_risk_col ds ! i = at_risk_direct ds (group_keys ds ! i)"
proof -
  let ?k = "group_keys ds ! i"
  have "length ds = length (filter (\<lambda>r. duration_days r < ?k) ds)
                  + length (filter (\<lambda>r. \<not> duration_days r < ?k) ds)"
    by (simp add: sum_length_filter_compl)
  then have "length ds = length (filter (\<lambda>r. duration_days r < ?k) ds)
                  + length (filter (\<lambda>r. ?k \<le> duration_days r) ds)"
    by (simp add: not_less)
  then show ?thesis
    using assms
    by (simp add: at_risk_col_def Let_def length_prior_count prior_count_counts_earlier
        at_risk_direct_def)
qed

lemma at_risk_col_direct: "at_risk_col ds = map (at_risk_direct ds) (group_keys ds)"
  by (rule nth_equalityI) (simp_all add: length_at_risk_col at_risk_col_nth)

lemma sum_observed_count:
  "sum_list (map (\<lambda>r. if endpoint_observed r then 1 else 0) (get_group ds k)) = events_direct ds k"
  by (induction ds) (simp_all add: get_group_def events_direct_def)

lemma length_grp_sum_observed: "length (grp_sum_observed ds) = length (group_keys ds)"
  by (simp add: grp_sum_observed_def)

lemma length_counts: "length (counts ds) = length (group_keys ds)"
  by (simp add: counts_def)

lemma counts_nth:
  assumes "i < length (group_keys ds)"
  shows "counts ds ! i = \<lparr>bucket = group_keys ds ! i,
                          at_risk = at_risk_direct ds (group_keys ds ! i),
                          num_obs = int (length (get_group ds (group_keys ds ! i))),
                          events = events_direct ds (group_keys ds ! i)\<rparr>"
  using assms
  by (simp add: counts_def at_risk_col_nth grp_size_def grp_sum_observed_def sum_observed_count)

lemma counts_direct:
  "counts ds = map (\<lambda>k. \<lparr>bucket = k, at_risk = at_risk_direct ds k,
                          num_obs = int (length (get_group ds k)),
                          events = events_direct ds k\<rparr>) (group_keys ds)"
  by (rule nth_equalityI) (simp_all add: length_counts counts_nth)

lemma bucket_counts: "map bucket (counts ds) = group_keys ds"
  by (simp add: counts_direct comp_def)

lemma counts_row:
  assumes "r \<in> set (counts ds)"
  shows "at_risk r = at_risk_direct ds (bucket r)"
    and "num_obs r = int (length (get_group ds (bucket r)))"
    and "events r = events_direct ds (bucket r)"
    and "bucket r \<in> duration_days ` set ds"
  using assms by (auto simp: counts_direct set_group_keys)

lemma events_le_num_obs: "events_direct ds k \<le> int (length (get_group ds k))"
  by (induction ds) (simp_all add: get_group_def events_direct_def)

lemma num_obs_le_at_risk: "int (length (get_group ds k)) \<le> at_risk_direct ds k"
  by (induction ds) (simp_all add: get_group_def at_risk_direct_def)

lemma at_risk_step:
  fixes k :: "'k::linorder"
  shows "k < k' \<Longrightarrow> at_risk_direct ds k' + int (length (get_group ds k)) \<le> at_risk_direct ds k"
  by (induction ds) (auto simp: get_group_def at_risk_direct_def)

lemma with_events_row:
  assumes "r \<in> set (with_events ds)"
  shows "r \<in> set (counts ds)" and "0 < events r"
  using assms by (simp_all add: with_events_def)

lemma strict_sorted_with_events: "sorted_wrt (<) (map bucket (with_events ds))"
proof -
  have "sorted_wrt (<) (map bucket (counts ds))"
    by (simp add: bucket_counts strict_sorted_group_keys)
  then show ?thesis
    by (simp add: with_events_def sorted_wrt_map sorted_wrt_filter)
qed

lemma set_bucket_with_events:
  "set (map bucket (with_events ds))
     = {duration_days r | r. r \<in> set ds \<and> endpoint_observed r}"
proof -
  have pos: "0 < events_direct ds k \<longleftrightarrow> (\<exists>r \<in> set ds. duration_days r = k \<and> endpoint_observed r)"
    for k
    by (auto simp: events_direct_def filter_empty_conv)
  have "map bucket (with_events ds) = filter (\<lambda>k. 0 < events_direct ds k) (group_keys ds)"
    by (simp add: with_events_def counts_direct filter_map comp_def)
  then have "set (map bucket (with_events ds))
               = {k \<in> duration_days ` set ds. 0 < events_direct ds k}"
    by (simp add: set_group_keys)
  also have "\<dots> = {duration_days r | r. r \<in> set ds \<and> endpoint_observed r}"
    unfolding pos by (auto intro: sym) 
  finally show ?thesis .
qed

section \<open>Rows of the survival table\<close>

lemma length_survival_of: "length (survival_of ds) = length (with_events ds)"
  by (simp add: survival_of_def Let_def)

lemma length_censored_col: "length (censored_col rows) = length rows"
  by (simp add: censored_col_def length_shift)

lemma censored_col_nth:
  assumes "i < length rows"
  shows "censored_col rows ! i
           = at_risk (rows ! i)
             - (if Suc i < length rows then at_risk (rows ! Suc i) else 0)
             - events (rows ! i)"
  using assms by (simp add: censored_col_def length_shift shift_up_nth)

lemma survival_of_nth:
  assumes "i < length (with_events ds)"
  shows "bucket (survival_of ds ! i) = bucket (with_events ds ! i)"
    and "at_risk (survival_of ds ! i) = at_risk (with_events ds ! i)"
    and "num_obs (survival_of ds ! i) = num_obs (with_events ds ! i)"
    and "events (survival_of ds ! i) = events (with_events ds ! i)"
    and "censored (survival_of ds ! i) = censored_col (with_events ds) ! i"
    and "survival_proba (survival_of ds ! i) = survival_proba_col (with_events ds) ! i"
    and "conversion_pct (survival_of ds ! i) = conversion_pct_col (with_events ds) ! i"
    and "cumulative_hazard (survival_of ds ! i) = cumulative_hazard_col (with_events ds) ! i"
  using assms
  by (simp_all add: survival_of_def Let_def count_row.defs survival_row.defs)

lemma survival_of_cols:
  "map bucket (survival_of ds) = map bucket (with_events ds)"
  "map at_risk (survival_of ds) = map at_risk (with_events ds)"
  "map events (survival_of ds) = map events (with_events ds)"
  by (rule nth_equalityI; simp add: length_survival_of survival_of_nth)+

lemma with_events_bounds:
  assumes "r \<in> set (with_events ds)"
  shows "0 < events r" and "events r \<le> num_obs r" and "num_obs r \<le> at_risk r"
proof -
  from assms have c: "r \<in> set (counts ds)" and "0 < events r"
    by (simp_all add: with_events_row)
  then show "0 < events r" by simp
  from c show "events r \<le> num_obs r"
    by (simp add: counts_row events_le_num_obs)
  from c show "num_obs r \<le> at_risk r"
    by (simp add: counts_row num_obs_le_at_risk)
qed

lemma with_events_at_risk_step:
  assumes "i < j" and "j < length (with_events ds)"
  shows "at_risk (with_events ds ! j) + num_obs (with_events ds ! i)
           \<le> at_risk (with_events ds ! i)"
proof -
  let ?rows = "with_events ds"
  from assms have i: "i < length ?rows" by simp
  have ri: "?rows ! i \<in> set (counts ds)" and rj: "?rows ! j \<in> set (counts ds)"
    using assms i by (simp_all add: with_events_row)
  have "map bucket ?rows ! i < map bucket ?rows ! j"
    using strict_sorted_with_events [of ds] assms
    by (intro sorted_wrt_nth_less) simp_all
  then have "bucket (?rows ! i) < bucket (?rows ! j)"
    using assms i by simp
  then show ?thesis
    using at_risk_step [of "bucket (?rows ! i)" "bucket (?rows ! j)" ds]
    by (simp add: counts_row [OF ri] counts_row [OF rj])
qed

lemma hazard_bounds:
  assumes "r \<in> set (with_events ds)"
  shows "0 < hazard r" and "hazard r \<le> 1"
proof -
  from with_events_bounds [OF assms]
  have e: "0 < events r" and a: "events r \<le> at_risk r" by simp_all
  then have "0 < at_risk r" by simp
  with e show "0 < hazard r" by (simp add: hazard_def)
  from a \<open>0 < at_risk r\<close> show "hazard r \<le> 1" by (simp add: hazard_def)
qed

lemma survival_proba_col_nth:
  assumes "i < length rows"
  shows "survival_proba_col rows ! i = (\<Prod>j\<le>i. 1 - hazard (rows ! j))"
proof -
  have "survival_proba_col rows ! i = prod_list (take (Suc i) (inverse_hazard rows))"
    using assms by (simp add: survival_proba_col_def cumprod_nth inverse_hazard_def)
  also have "\<dots> = (\<Prod>j\<le>i. inverse_hazard rows ! j)"
    using assms by (simp add: prod_list_take_Suc_nth inverse_hazard_def)
  also have "\<dots> = (\<Prod>j\<le>i. 1 - hazard (rows ! j))"
    using assms by (intro prod.cong) (simp_all add: inverse_hazard_def)
  finally show ?thesis .
qed

lemma cumulative_hazard_col_nth:
  assumes "i < length rows"
  shows "cumulative_hazard_col rows ! i = (\<Sum>j\<le>i. hazard (rows ! j))"
proof -
  have "cumulative_hazard_col rows ! i = sum_list (take (Suc i) (map hazard rows))"
    using assms by (simp add: cumulative_hazard_col_def cumsum_nth)
  also have "\<dots> = (\<Sum>j\<le>i. map hazard rows ! j)"
    using assms by (simp add: sum_list_take_Suc_nth)
  also have "\<dots> = (\<Sum>j\<le>i. hazard (rows ! j))"
    using assms by (intro sum.cong) simp_all
  finally show ?thesis .
qed

lemma survival_of_hazard:
  assumes "j < length (with_events ds)"
  shows "hazard (with_events ds ! j)
           = real_of_int (events (survival_of ds ! j)) / real_of_int (at_risk (survival_of ds ! j))"
  using assms by (simp add: hazard_def survival_of_nth)

lemma survival_proba_nth:
  assumes "i < length (survival_of ds)"
  shows "survival_proba (survival_of ds ! i)
           = (\<Prod>j\<le>i. 1 - real_of_int (events (survival_of ds ! j))
                              / real_of_int (at_risk (survival_of ds ! j)))"
proof -
  from assms have i: "i < length (with_events ds)" by (simp add: length_survival_of)
  have "survival_proba (survival_of ds ! i) = (\<Prod>j\<le>i. 1 - hazard (with_events ds ! j))"
    using i by (simp add: survival_of_nth survival_proba_col_nth)
  also have "\<dots> = (\<Prod>j\<le>i. 1 - real_of_int (events (survival_of ds ! j))
                              / real_of_int (at_risk (survival_of ds ! j)))"
    using i by (intro prod.cong) (simp_all add: survival_of_hazard)
  finally show ?thesis .
qed

lemma cumulative_hazard_nth:
  assumes "i < length (survival_of ds)"
  shows "cumulative_hazard (survival_of ds ! i)
           = (\<Sum>j\<le>i. real_of_int (events (survival_of ds ! j))
                          / real_of_int (at_risk (survival_of ds ! j)))"
proof -
  from assms have i: "i < length (with_events ds)" by (simp add: length_survival_of)
  have "cumulative_hazard (survival_of ds ! i) = (\<Sum>j\<le>i. hazard (with_events ds ! j))"
    using i by (simp add: survival_of_nth cumulative_hazard_col_nth)
  also have "\<dots> = (\<Sum>j\<le>i. real_of_int (events (survival_of ds ! j))
                          / real_of_int (at_risk (survival_of ds ! j)))"
    using i by (intro sum.cong) (simp_all add: survival_of_hazard)
  finally show ?thesis .
qed

lemma survival_of_bounds:
  assumes "i < length (survival_of ds)"
  shows "0 < events (survival_of ds ! i)"
    and "events (survival_of ds ! i) \<le> num_obs (survival_of ds ! i)"
    and "num_obs (survival_of ds ! i) \<le> at_risk (survival_of ds ! i)"
proof -
  from assms have i: "i < length (with_events ds)" by (simp add: length_survival_of)
  then have "with_events ds ! i \<in> set (with_events ds)" by simp
  from with_events_bounds [OF this] i
  show "0 < events (survival_of ds ! i)"
    and "events (survival_of ds ! i) \<le> num_obs (survival_of ds ! i)"
    and "num_obs (survival_of ds ! i) \<le> at_risk (survival_of ds ! i)"
    by (simp_all add: survival_of_nth)
qed

lemma survival_of_at_risk_step:
  assumes "i < j" and "j < length (survival_of ds)"
  shows "at_risk (survival_of ds ! j) + num_obs (survival_of ds ! i)
           \<le> at_risk (survival_of ds ! i)"
  using assms with_events_at_risk_step [of i j ds]
  by (simp add: length_survival_of survival_of_nth)

lemma survival_of_censored:
  assumes "i < length (survival_of ds)"
  shows "censored (survival_of ds ! i)
           = at_risk (survival_of ds ! i)
             - (if Suc i < length (survival_of ds) then at_risk (survival_of ds ! Suc i) else 0)
             - events (survival_of ds ! i)"
  using assms by (simp add: length_survival_of survival_of_nth censored_col_nth)

lemma survival_of_censored_nonneg:
  assumes "i < length (survival_of ds)"
  shows "0 \<le> censored (survival_of ds ! i)"
proof (cases "Suc i < length (survival_of ds)")
  case True
  from survival_of_at_risk_step [of i "Suc i" ds] True survival_of_bounds(2) [OF assms]
  show ?thesis by (simp add: survival_of_censored [OF assms])
next
  case False
  with survival_of_bounds [OF assms]
  show ?thesis by (simp add: survival_of_censored [OF assms])
qed

lemma survival_of_censored_le:
  assumes "i < length (survival_of ds)"
  shows "events (survival_of ds ! i) + censored (survival_of ds ! i) \<le> at_risk (survival_of ds ! i)"
proof (cases "Suc i < length (survival_of ds)")
  case True
  from survival_of_bounds [OF True]
  have "0 \<le> at_risk (survival_of ds ! Suc i)" by simp
  with True show ?thesis by (simp add: survival_of_censored [OF assms])
next
  case False
  then show ?thesis by (simp add: survival_of_censored [OF assms])
qed

section \<open>Running products and sums of bounded terms\<close>

lemma prod_unit_interval:
  fixes f :: "nat \<Rightarrow> real"
  assumes "\<And>k. k \<le> n \<Longrightarrow> 0 \<le> f k \<and> f k \<le> 1"
  shows "0 \<le> (\<Prod>k\<le>n. f k)" and "(\<Prod>k\<le>n. f k) \<le> 1"
proof -
  show "0 \<le> (\<Prod>k\<le>n. f k)"
    by (rule prod_nonneg) (simp add: assms)
  show "(\<Prod>k\<le>n. f k) \<le> 1"
    by (rule prod_le_1) (simp add: assms)
qed

lemma prod_antimono:
  fixes f :: "nat \<Rightarrow> real"
  assumes "i \<le> j" and "\<And>k. k \<le> j \<Longrightarrow> 0 \<le> f k \<and> f k \<le> 1"
  shows "(\<Prod>k\<le>j. f k) \<le> (\<Prod>k\<le>i. f k)"
  using assms
proof (induction j)
  case 0
  then show ?case by simp
next
  case (Suc j)
  show ?case
  proof (cases "i = Suc j")
    case True
    then show ?thesis by simp
  next
    case False
    with Suc.prems have le: "i \<le> j" by simp
    have ih: "(\<Prod>k\<le>j. f k) \<le> (\<Prod>k\<le>i. f k)"
      by (rule Suc.IH [OF le]) (simp add: Suc.prems)
    have nonneg: "0 \<le> (\<Prod>k\<le>j. f k)"
      by (rule prod_nonneg) (simp add: Suc.prems)
    have "f (Suc j) \<le> 1" and "0 \<le> f (Suc j)"
      using Suc.prems(2) [of "Suc j"] by simp_all
    then have "(\<Prod>k\<le>j. f k) * f (Suc j) \<le> (\<Prod>k\<le>j. f k)"
      using nonneg by (simp add: mult_left_le)
    with ih show ?thesis by simp
  qed
qed

lemma sum_mono_atMost:
  fixes f :: "nat \<Rightarrow> real"
  assumes "i \<le> j" and "\<And>k. k \<le> j \<Longrightarrow> 0 \<le> f k"
  shows "(\<Sum>k\<le>i. f k) \<le> (\<Sum>k\<le>j. f k)"
  by (rule sum_mono2) (use assms in auto)

lemma survival_of_factor:
  assumes "j < length (survival_of ds)"
  shows "0 \<le> 1 - real_of_int (events (survival_of ds ! j)) / real_of_int (at_risk (survival_of ds ! j))"
    and "1 - real_of_int (events (survival_of ds ! j)) / real_of_int (at_risk (survival_of ds ! j)) \<le> 1"
    and "0 \<le> real_of_int (events (survival_of ds ! j)) / real_of_int (at_risk (survival_of ds ! j))"
proof -
  from assms have j: "j < length (with_events ds)" by (simp add: length_survival_of)
  then have "with_events ds ! j \<in> set (with_events ds)" by simp
  from hazard_bounds [OF this] survival_of_hazard [OF j]
  show "0 \<le> 1 - real_of_int (events (survival_of ds ! j)) / real_of_int (at_risk (survival_of ds ! j))"
    and "1 - real_of_int (events (survival_of ds ! j)) / real_of_int (at_risk (survival_of ds ! j)) \<le> 1"
    and "0 \<le> real_of_int (events (survival_of ds ! j)) / real_of_int (at_risk (survival_of ds ! j))"
    by simp_all
qed

lemma survival_proba_unit:
  assumes "i < length (survival_of ds)"
  shows "0 \<le> survival_proba (survival_of ds ! i)" and "survival_proba (survival_of ds ! i) \<le> 1"
proof -
  have f: "0 \<le> 1 - real_of_int (events (survival_of ds ! k)) / real_of_int (at_risk (survival_of ds ! k))
         \<and> 1 - real_of_int (events (survival_of ds ! k)) / real_of_int (at_risk (survival_of ds ! k)) \<le> 1"
    if "k \<le> i" for k
    using that assms survival_of_factor [of k ds] by simp
  from prod_unit_interval [of i "\<lambda>k. 1 - real_of_int (events (survival_of ds ! k)) / real_of_int (at_risk (survival_of ds ! k))", OF f]
  show "0 \<le> survival_proba (survival_of ds ! i)" and "survival_proba (survival_of ds ! i) \<le> 1"
    by (simp_all add: survival_proba_nth [OF assms])
qed

lemma survival_proba_antimono:
  assumes "i \<le> j" and "j < length (survival_of ds)"
  shows "survival_proba (survival_of ds ! j) \<le> survival_proba (survival_of ds ! i)"
proof -
  from assms have i: "i < length (survival_of ds)" by simp
  have f: "0 \<le> 1 - real_of_int (events (survival_of ds ! k)) / real_of_int (at_risk (survival_of ds ! k))
         \<and> 1 - real_of_int (events (survival_of ds ! k)) / real_of_int (at_risk (survival_of ds ! k)) \<le> 1"
    if "k \<le> j" for k
    using that assms survival_of_factor [of k ds] by simp
  from prod_antimono [of i j "\<lambda>k. 1 - real_of_int (events (survival_of ds ! k)) / real_of_int (at_risk (survival_of ds ! k))", OF assms(1) f]
  show ?thesis
    by (simp add: survival_proba_nth [OF assms(2)] survival_proba_nth [OF i])
qed

lemma cumulative_hazard_mono:
  assumes "i \<le> j" and "j < length (survival_of ds)"
  shows "cumulative_hazard (survival_of ds ! i) \<le> cumulative_hazard (survival_of ds ! j)"
proof -
  from assms have i: "i < length (survival_of ds)" by simp
  have f: "0 \<le> real_of_int (events (survival_of ds ! k)) / real_of_int (at_risk (survival_of ds ! k))"
    if "k \<le> j" for k
    using that assms survival_of_factor [of k ds] by simp
  from sum_mono_atMost [of i j "\<lambda>k. real_of_int (events (survival_of ds ! k)) / real_of_int (at_risk (survival_of ds ! k))", OF assms(1) f]
  show ?thesis
    by (simp add: cumulative_hazard_nth [OF assms(2)] cumulative_hazard_nth [OF i])
qed

lemma cumulative_hazard_nonneg:
  assumes "i < length (survival_of ds)"
  shows "0 \<le> cumulative_hazard (survival_of ds ! i)"
proof -
  have "0 \<le> (\<Sum>j\<le>i. real_of_int (events (survival_of ds ! j))
                          / real_of_int (at_risk (survival_of ds ! j)))"
    by (rule sum_nonneg) (use assms survival_of_factor [of _ ds] in simp)
  then show ?thesis by (simp add: cumulative_hazard_nth [OF assms])
qed

lemma at_risk_antimono:
  assumes "i \<le> j" and "j < length (survival_of ds)"
  shows "at_risk (survival_of ds ! j) \<le> at_risk (survival_of ds ! i)"
proof (cases "i = j")
  case True
  then show ?thesis by simp
next
  case False
  with assms have "i < j" by simp
  from survival_of_at_risk_step [OF this assms(2)] survival_of_bounds [of i ds] assms
  show ?thesis by simp
qed

lemma length_bucketed: "length (bucketed f ds) = length ds"
  by (simp add: bucketed_def)

lemma at_risk_direct_bucketed:
  "at_risk_direct (bucketed f ds) k = int (length (filter (\<lambda>r. k \<le> f (duration_days r)) ds))"
  by (simp add: at_risk_direct_def bucketed_def filter_map comp_def)

lemma num_obs_counts: "map num_obs (counts ds) = grp_size ds"
  by (simp add: counts_direct grp_size_def comp_def)

lemma at_risk_counts_nth:
  assumes "i < length (counts ds)"
  shows "at_risk (counts ds ! i) = int (length ds) - sum_list (take i (map num_obs (counts ds)))"
    and "at_risk (counts ds ! i) = at_risk_direct ds (bucket (counts ds ! i))"
proof -
  from assms have i: "i < length (group_keys ds)" by (simp add: length_counts)
  then have "at_risk (counts ds ! i) = at_risk_col ds ! i"
    by (simp add: counts_def)
  also have "\<dots> = int (length ds) - prior_count ds ! i"
    using i by (simp add: at_risk_col_def Let_def length_prior_count)
  also have "\<dots> = int (length ds) - sum_list (take i (grp_size ds))"
    using i by (simp add: prior_count_nth)
  finally show "at_risk (counts ds ! i)
                  = int (length ds) - sum_list (take i (map num_obs (counts ds)))"
    by (simp add: num_obs_counts)
  from i show "at_risk (counts ds ! i) = at_risk_direct ds (bucket (counts ds ! i))"
    by (simp add: counts_nth)
qed

section \<open>The life table\<close>

lemma survival_buckets:
  "map bucket (survival bucket_fn durations)
     = filter (\<lambda>k. 0 < events_direct (bucketed bucket_fn durations) k)
         (group_keys (bucketed bucket_fn durations))"
  by (simp add: survival_def survival_of_cols with_events_def counts_direct filter_map comp_def)

text \<open>
  Claim C1. For every input of duration records and every bucket function, the rows of
  the life table are the buckets with at least one event, in ascending order of the
  bucket key; the survival estimate of the i-th row is the running product, over the
  rows j up to i, of 1 - events[j] / at_risk[j]; and every row has at_risk > 0, so no
  division is by zero. The float columns are read as exact reals.
\<close>

theorem kaplan_meier_running_product:
  fixes bucket_fn :: "'d \<Rightarrow> 'k::linorder"
  shows "let tbl = survival bucket_fn durations
         in map bucket tbl
              = filter (\<lambda>k. 0 < events_direct (bucketed bucket_fn durations) k)
                  (group_keys (bucketed bucket_fn durations))
          \<and> sorted_wrt (<) (map bucket tbl)
          \<and> (\<forall>i<length tbl.
                1 \<le> events (tbl ! i)
              \<and> 0 < at_risk (tbl ! i)
              \<and> survival_proba (tbl ! i)
                  = (\<Prod>j\<le>i. 1 - real_of_int (events (tbl ! j)) / real_of_int (at_risk (tbl ! j))))"
  unfolding Let_def survival_def
proof (intro conjI allI impI)
  let ?ds = "bucketed bucket_fn durations"
  show "map bucket (survival_of ?ds)
          = filter (\<lambda>k. 0 < events_direct ?ds k) (group_keys ?ds)"
    using survival_buckets [of bucket_fn durations] by (simp add: survival_def)
  show "sorted_wrt (<) (map bucket (survival_of ?ds))"
    by (simp add: survival_of_cols strict_sorted_with_events)
  fix i assume i: "i < length (survival_of ?ds)"
  from survival_of_bounds [OF i]
  show "1 \<le> events (survival_of ?ds ! i)" and "0 < at_risk (survival_of ?ds ! i)"
    by simp_all
  show "survival_proba (survival_of ?ds ! i)
          = (\<Prod>j\<le>i. 1 - real_of_int (events (survival_of ?ds ! j))
                            / real_of_int (at_risk (survival_of ?ds ! j)))"
    by (rule survival_proba_nth [OF i])
qed

theorem kaplan_meier_running_product_witness:
  "2 < length (survival id scenario_A)
   \<and> 1 \<le> events (survival id scenario_A ! 2)
   \<and> 0 < at_risk (survival id scenario_A ! 2)
   \<and> survival_proba (survival id scenario_A ! 2)
       = (\<Prod>j\<le>2. 1 - real_of_int (events (survival id scenario_A ! j))
                        / real_of_int (at_risk (survival id scenario_A ! j)))"
proof -
  have len: "2 < length (survival id scenario_A)" by code_simp
  from kaplan_meier_running_product [of id scenario_A, unfolded Let_def, THEN conjunct2,
      THEN conjunct2, rule_format, OF len] len
  show ?thesis by simp
qed

text \<open>
  Claim C2. For every collection of duration records, every bucket function and every
  bucket of the grouped frame, the \<open>at_risk\<close> value the script computes (the number of
  subjects minus the sum of \<open>num_obs\<close> over the buckets strictly before it, which is 0
  for the first bucket) is the number of records whose bucketed duration is at least that
  bucket's key.
\<close>

theorem at_risk_cumsum_refines_count:
  fixes bucket_fn :: "'d \<Rightarrow> 'k::linorder"
  shows "let tbl = counts (bucketed bucket_fn durations)
         in \<forall>i<length tbl.
              at_risk (tbl ! i)
                = int (length durations) - sum_list (take i (map num_obs tbl))
            \<and> at_risk (tbl ! i)
                = int (length (filter (\<lambda>r. bucket (tbl ! i) \<le> bucket_fn (duration_days r))
                                 durations))"
  unfolding Let_def
proof (intro allI impI conjI)
  fix i assume i: "i < length (counts (bucketed bucket_fn durations))"
  from at_risk_counts_nth(1) [OF i]
  show "at_risk (counts (bucketed bucket_fn durations) ! i)
          = int (length durations)
            - sum_list (take i (map num_obs (counts (bucketed bucket_fn durations))))"
    by (simp add: length_bucketed)
  from at_risk_counts_nth(2) [OF i]
  show "at_risk (counts (bucketed bucket_fn durations) ! i)
          = int (length (filter (\<lambda>r. bucket (counts (bucketed bucket_fn durations) ! i)
                                        \<le> bucket_fn (duration_days r)) durations))"
    by (simp add: at_risk_direct_bucketed)
qed

theorem at_risk_cumsum_refines_count_witness:
  "2 < length (counts (bucketed id scenario_A))
   \<and> at_risk (counts (bucketed id scenario_A) ! 2)
       = int (length scenario_A)
         - sum_list (take 2 (map num_obs (counts (bucketed id scenario_A))))
   \<and> at_risk (counts (bucketed id scenario_A) ! 2)
       = int (length (filter (\<lambda>r. bucket (counts (bucketed id scenario_A) ! 2)
                                     \<le> id (duration_days r)) scenario_A))"
proof -
  have len: "2 < length (counts (bucketed id scenario_A))" by code_simp
  from at_risk_cumsum_refines_count [of id scenario_A, unfolded Let_def, rule_format, OF len] len
  show ?thesis by simp
qed

text \<open>
  Claim C3. On the rows of the life table (the buckets with an event, ascending), the
  censored count of row i is at_risk[i] - at_risk[i+1] - events[i], where at_risk[i+1]
  is the at-risk count of the next row and 0 for the last row.
\<close>

theorem censored_backed_out_of_at_risk:
  fixes bucket_fn :: "'d \<Rightarrow> 'k::linorder"
  shows "let tbl = survival bucket_fn durations
         in \<forall>i<length tbl.
              censored (tbl ! i)
                = at_risk (tbl ! i)
                  - (if Suc i < length tbl then at_risk (tbl ! Suc i) else 0)
                  - events (tbl ! i)"
  unfolding Let_def survival_def
  by (simp add: survival_of_censored)

theorem censored_backed_out_of_at_risk_witness:
  "2 < length (survival id scenario_A)
   \<and> censored (survival id scenario_A ! 2)
       = at_risk (survival id scenario_A ! 2)
         - (if Suc 2 < length (survival id scenario_A)
            then at_risk (survival id scenario_A ! Suc 2) else 0)
         - events (survival id scenario_A ! 2)"
proof -
  have len: "2 < length (survival id scenario_A)" by code_simp
  from censored_backed_out_of_at_risk [of id scenario_A, unfolded Let_def, rule_format, OF len] len
  show ?thesis by simp
qed

text \<open>
  Claim C4. The cumulative hazard of the i-th row of the life table is the running sum,
  over the rows j up to i in the order of the survival estimate, of
  events[j] / at_risk[j]; so the cumulative hazard is at least 0 in every row and does
  not decrease along the table.
\<close>

theorem nelson_aalen_running_sum:
  fixes bucket_fn :: "'d \<Rightarrow> 'k::linorder"
  shows "let tbl = survival bucket_fn durations
         in (\<forall>i<length tbl.
               cumulative_hazard (tbl ! i)
                 = (\<Sum>j\<le>i. real_of_int (events (tbl ! j)) / real_of_int (at_risk (tbl ! j)))
             \<and> 0 \<le> cumulative_hazard (tbl ! i))
          \<and> (\<forall>i j. i \<le> j \<and> j < length tbl
                \<longrightarrow> cumulative_hazard (tbl ! i) \<le> cumulative_hazard (tbl ! j))"
  unfolding Let_def survival_def
proof (intro conjI allI impI)
  let ?ds = "bucketed bucket_fn durations"
  fix i assume i: "i < length (survival_of ?ds)"
  show "cumulative_hazard (survival_of ?ds ! i)
          = (\<Sum>j\<le>i. real_of_int (events (survival_of ?ds ! j))
                        / real_of_int (at_risk (survival_of ?ds ! j)))"
    by (rule cumulative_hazard_nth [OF i])
  show "0 \<le> cumulative_hazard (survival_of ?ds ! i)"
    by (rule cumulative_hazard_nonneg [OF i])
next
  let ?ds = "bucketed bucket_fn durations"
  fix i j assume "i \<le> j \<and> j < length (survival_of ?ds)"
  then show "cumulative_hazard (survival_of ?ds ! i) \<le> cumulative_hazard (survival_of ?ds ! j)"
    by (simp add: cumulative_hazard_mono)
qed

theorem nelson_aalen_running_sum_witness:
  "3 < length (survival id scenario_A)
   \<and> cumulative_hazard (survival id scenario_A ! 3)
       = (\<Sum>j\<le>3. real_of_int (events (survival id scenario_A ! j))
                     / real_of_int (at_risk (survival id scenario_A ! j)))
   \<and> 0 \<le> cumulative_hazard (survival id scenario_A ! 3)
   \<and> cumulative_hazard (survival id scenario_A ! 1)
       \<le> cumulative_hazard (survival id scenario_A ! 3)"
proof -
  have len: "3 < length (survival id scenario_A)" by code_simp
  note na = nelson_aalen_running_sum [of id scenario_A, unfolded Let_def]
  from na [THEN conjunct1, rule_format, OF len]
    na [THEN conjunct2, rule_format, of 1 3] len
  show ?thesis by simp
qed

text \<open>
  Claim C5. Scenario A: the durations 1, 1, 2, 3, 3, 3, 4 with the fourth record censored
  and the identity as bucket function give the buckets 1, 2, 3, 4 with
  (num_obs, events, at_risk) = (2, 2, 7), (1, 1, 5), (3, 2, 4), (1, 1, 1); the censored
  count at bucket 3 is 4 - 1 - 2 = 1 and the survival probability after bucket 4 is
  (1 - 2/7) (1 - 1/5) (1 - 2/4) (1 - 1/1) = 0.
\<close>

theorem scenario_A_life_table:
  "counts (bucketed id scenario_A)
     = [\<lparr>bucket = 1, at_risk = 7, num_obs = 2, events = 2\<rparr>,
        \<lparr>bucket = 2, at_risk = 5, num_obs = 1, events = 1\<rparr>,
        \<lparr>bucket = 3, at_risk = 4, num_obs = 3, events = 2\<rparr>,
        \<lparr>bucket = 4, at_risk = 1, num_obs = 1, events = 1\<rparr>]
   \<and> map bucket (survival id scenario_A) = [1, 2, 3, 4]
   \<and> censored (survival id scenario_A ! 2) = 4 - 1 - 2
   \<and> censored (survival id scenario_A ! 2) = 1
   \<and> survival_proba (survival id scenario_A ! 3)
       = (1 - 2 / 7) * (1 - 1 / 5) * (1 - 2 / 4) * (1 - 1 / 1)
   \<and> survival_proba (survival id scenario_A ! 3) = 0"
proof (intro conjI)
  show "counts (bucketed id scenario_A)
     = [\<lparr>bucket = 1, at_risk = 7, num_obs = 2, events = 2\<rparr>,
        \<lparr>bucket = 2, at_risk = 5, num_obs = 1, events = 1\<rparr>,
        \<lparr>bucket = 3, at_risk = 4, num_obs = 3, events = 2\<rparr>,
        \<lparr>bucket = 4, at_risk = 1, num_obs = 1, events = 1\<rparr>]"
    by code_simp
  show "map bucket (survival id scenario_A) = [1, 2, 3, 4]"
    by code_simp
  show "censored (survival id scenario_A ! 2) = 4 - 1 - 2"
    by code_simp
  show "censored (survival id scenario_A ! 2) = 1"
    by code_simp
  show "survival_proba (survival id scenario_A ! 3)
       = (1 - 2 / 7) * (1 - 1 / 5) * (1 - 2 / 4) * (1 - 1 / 1)"
    by code_simp
  show "survival_proba (survival id scenario_A ! 3) = 0"
    by code_simp
qed

lemma survival_of_events_lt_at_risk:
  assumes "Suc j < length (survival_of ds)"
  shows "events (survival_of ds ! j) < at_risk (survival_of ds ! j)"
proof -
  from assms have j: "j < length (survival_of ds)" by simp
  from survival_of_at_risk_step [of j "Suc j" ds] assms
  have "at_risk (survival_of ds ! Suc j) + num_obs (survival_of ds ! j)
          \<le> at_risk (survival_of ds ! j)"
    by simp
  moreover from survival_of_bounds [OF assms] have "0 < at_risk (survival_of ds ! Suc j)"
    by simp
  moreover from survival_of_bounds(2) [OF j]
  have "events (survival_of ds ! j) \<le> num_obs (survival_of ds ! j)" .
  ultimately show ?thesis by simp
qed

lemma survival_of_factor_zero_iff:
  assumes "j < length (survival_of ds)"
  shows "1 - real_of_int (events (survival_of ds ! j)) / real_of_int (at_risk (survival_of ds ! j)) = 0
           \<longleftrightarrow> events (survival_of ds ! j) = at_risk (survival_of ds ! j)"
proof -
  from survival_of_bounds [OF assms] have "0 < at_risk (survival_of ds ! j)" by simp
  then show ?thesis by (auto simp: field_simps)
qed

lemma survival_proba_zero_iff:
  assumes "i < length (survival_of ds)"
  shows "survival_proba (survival_of ds ! i) = 0
           \<longleftrightarrow> Suc i = length (survival_of ds)
               \<and> events (survival_of ds ! i) = at_risk (survival_of ds ! i)"
proof -
  let ?T = "survival_of ds"
  let ?f = "\<lambda>j. 1 - real_of_int (events (?T ! j)) / real_of_int (at_risk (?T ! j))"
  have "survival_proba (?T ! i) = 0 \<longleftrightarrow> (\<exists>j\<in>{..i}. ?f j = 0)"
    by (simp add: survival_proba_nth [OF assms])
  also have "\<dots> \<longleftrightarrow> (\<exists>j\<le>i. events (?T ! j) = at_risk (?T ! j))"
  proof -
    have eq: "?f j = 0 \<longleftrightarrow> events (?T ! j) = at_risk (?T ! j)" if "j \<le> i" for j
      using that assms by (intro survival_of_factor_zero_iff) simp
    show ?thesis
      unfolding Bex_def atMost_iff using eq by blast
  qed
  also have "\<dots> \<longleftrightarrow> Suc i = length ?T \<and> events (?T ! i) = at_risk (?T ! i)"
  proof
    assume "\<exists>j\<le>i. events (?T ! j) = at_risk (?T ! j)"
    then obtain j where j: "j \<le> i" "events (?T ! j) = at_risk (?T ! j)" by blast
    have "\<not> Suc j < length ?T"
      using survival_of_events_lt_at_risk [of j ds] j(2) by auto
    with j(1) assms have "j = i" and "Suc i = length ?T" by simp_all
    with j(2) show "Suc i = length ?T \<and> events (?T ! i) = at_risk (?T ! i)" by simp
  next
    assume "Suc i = length ?T \<and> events (?T ! i) = at_risk (?T ! i)"
    then show "\<exists>j\<le>i. events (?T ! j) = at_risk (?T ! j)" by blast
  qed
  finally show ?thesis .
qed

text \<open>
  The survival estimate is not always positive: it is 0 in the last row of Scenario A,
  where every unit still at risk has its event.
\<close>

theorem survival_proba_positive_counterexample:
  "3 < length (survival id scenario_A)
   \<and> \<not> (0 < survival_proba (survival id scenario_A ! 3)
        \<and> survival_proba (survival id scenario_A ! 3) \<le> 1)"
proof (intro conjI)
  show "3 < length (survival id scenario_A)" by code_simp
  have "survival_proba (survival id scenario_A ! 3) = 0" by code_simp
  then show "\<not> (0 < survival_proba (survival id scenario_A ! 3)
        \<and> survival_proba (survival id scenario_A ! 3) \<le> 1)"
    by simp
qed

text \<open>
  Claim C6, amended. Along the life table in ascending bucket order the \<open>at_risk\<close>
  column does not increase and the \<open>survival_proba\<close> column does not increase; every
  survival probability is at least 0 and at most 1; and a survival probability is 0 in
  exactly one case, the last row of the table when its events equal its at-risk count.
  So it is strictly positive in every other row.
\<close>

theorem at_risk_and_survival_monotone:
  fixes bucket_fn :: "'d \<Rightarrow> 'k::linorder"
  shows "let tbl = survival bucket_fn durations
         in (\<forall>i j. i \<le> j \<and> j < length tbl
               \<longrightarrow> at_risk (tbl ! j) \<le> at_risk (tbl ! i)
                 \<and> survival_proba (tbl ! j) \<le> survival_proba (tbl ! i))
          \<and> (\<forall>i<length tbl.
                0 \<le> survival_proba (tbl ! i) \<and> survival_proba (tbl ! i) \<le> 1
              \<and> (survival_proba (tbl ! i) = 0
                   \<longleftrightarrow> Suc i = length tbl \<and> events (tbl ! i) = at_risk (tbl ! i)))"
  unfolding Let_def survival_def
proof (intro conjI allI impI)
  let ?ds = "bucketed bucket_fn durations"
  fix i j assume ij: "i \<le> j \<and> j < length (survival_of ?ds)"
  then show "at_risk (survival_of ?ds ! j) \<le> at_risk (survival_of ?ds ! i)"
    by (simp add: at_risk_antimono)
  from ij show "survival_proba (survival_of ?ds ! j) \<le> survival_proba (survival_of ?ds ! i)"
    by (simp add: survival_proba_antimono)
next
  let ?ds = "bucketed bucket_fn durations"
  fix i assume i: "i < length (survival_of ?ds)"
  from survival_proba_unit [OF i]
  show "0 \<le> survival_proba (survival_of ?ds ! i)" and "survival_proba (survival_of ?ds ! i) \<le> 1"
    by simp_all
  show "survival_proba (survival_of ?ds ! i) = 0
          \<longleftrightarrow> Suc i = length (survival_of ?ds)
              \<and> events (survival_of ?ds ! i) = at_risk (survival_of ?ds ! i)"
    by (rule survival_proba_zero_iff [OF i])
qed

theorem at_risk_and_survival_monotone_witness:
  "(1::nat) \<le> 3 \<and> 3 < length (survival id scenario_A)
   \<and> at_risk (survival id scenario_A ! 3) \<le> at_risk (survival id scenario_A ! 1)
   \<and> survival_proba (survival id scenario_A ! 3) \<le> survival_proba (survival id scenario_A ! 1)
   \<and> 0 \<le> survival_proba (survival id scenario_A ! 3)
   \<and> survival_proba (survival id scenario_A ! 3) \<le> 1
   \<and> (survival_proba (survival id scenario_A ! 3) = 0
        \<longleftrightarrow> Suc 3 = length (survival id scenario_A)
            \<and> events (survival id scenario_A ! 3) = at_risk (survival id scenario_A ! 3))
   \<and> 1 < length (survival id scenario_A)
   \<and> (survival_proba (survival id scenario_A ! 1) = 0
        \<longleftrightarrow> Suc 1 = length (survival id scenario_A)
            \<and> events (survival id scenario_A ! 1) = at_risk (survival id scenario_A ! 1))"
proof -
  have len: "3 < length (survival id scenario_A)" by code_simp
  have len1: "1 < length (survival id scenario_A)" by code_simp
  note mono = at_risk_and_survival_monotone [of id scenario_A, unfolded Let_def]
  from mono [THEN conjunct1, rule_format, of 1 3]
    mono [THEN conjunct2, rule_format, OF len]
    mono [THEN conjunct2, rule_format, OF len1] len len1
  show ?thesis by simp
qed

text \<open>
  Claim C10. Every row of the life table has censored at least 0, and its events and
  censored counts together do not exceed its at-risk count.
\<close>

theorem censored_nonnegative:
  fixes bucket_fn :: "'d \<Rightarrow> 'k::linorder"
  shows "let tbl = survival bucket_fn durations
         in \<forall>i<length tbl.
              0 \<le> censored (tbl ! i)
            \<and> events (tbl ! i) + censored (tbl ! i) \<le> at_risk (tbl ! i)"
  unfolding Let_def survival_def
  by (simp add: survival_of_censored_nonneg survival_of_censored_le)

theorem censored_nonnegative_witness:
  "2 < length (survival id scenario_A)
   \<and> 0 \<le> censored (survival id scenario_A ! 2)
   \<and> events (survival id scenario_A ! 2) + censored (survival id scenario_A ! 2)
       \<le> at_risk (survival id scenario_A ! 2)"
proof -
  have len: "2 < length (survival id scenario_A)" by code_simp
  from censored_nonnegative [of id scenario_A, unfolded Let_def, rule_format, OF len] len
  show ?thesis by simp
qed

section \<open>The event aggregation\<close>

lemma range_frame_single: "range_frame cols [r] = \<lparr>columns = cols, labelled = [(0, r)]\<rparr>"
  by (simp add: range_frame_def)

lemma range_frame_empty: "range_frame cols [] = \<lparr>columns = cols, labelled = []\<rparr>"
  by (simp add: range_frame_def)

lemma events_to_conversions_ignores_data:
  "events_to_conversions df data unit timestamp event conversion_events
     = events_to_conversions df data' unit timestamp event conversion_events"
  by (simp add: events_to_conversions_def)

text \<open>
  Claim C7. The claim is that a call of the event aggregation depends on its arguments
  only. The code reads the module-level \<open>df\<close>: for one and the same log, columns and
  endpoint set, \<open>events_to_durations\<close> returns a final observation time of 10 under one
  binding of \<open>df\<close> and of 99 under another, and raises when \<open>df\<close> is unbound; and
  \<open>events_to_conversions\<close> returns the table of \<open>df\<close>, whatever log it is given.
\<close>

theorem aggregation_reads_module_df:
  "events_to_durations (Some (events_frame [event_row 1 10 0])) (events_frame [event_row 1 10 0])
     ''visitorid'' ''timestamp'' ''event'' [1]
     = Inr [(1, \<lparr>entry_time = Some 10, endpoint = None, endpoint_time = None,
                  final_obs_time = Some 10, duration = Some 0\<rparr>)]
   \<and> events_to_durations (Some (events_frame [event_row 2 99 0])) (events_frame [event_row 1 10 0])
       ''visitorid'' ''timestamp'' ''event'' [1]
     = Inr [(1, \<lparr>entry_time = Some 10, endpoint = None, endpoint_time = None,
                  final_obs_time = Some 99, duration = Some 89\<rparr>)]
   \<and> events_to_durations None (events_frame [event_row 1 10 0])
       ''visitorid'' ''timestamp'' ''event'' [1] = Inl NameError
   \<and> events_to_conversions (Some (events_frame [event_row 2 99 0])) (events_frame [event_row 1 10 0])
       ''visitorid'' ''timestamp'' ''event'' [1]
     = Inr [(2, \<lparr>ttc_entry_time = Some 99, conversion_time = None, conversion_event = None,
                  ttc_final_obs_time = Some 99, ttc_duration = Some 0\<rparr>)]
   \<and> events_to_conversions (Some (events_frame [event_row 1 10 0])) (events_frame [event_row 1 10 0])
       ''visitorid'' ''timestamp'' ''event'' [1]
     = Inr [(1, \<lparr>ttc_entry_time = Some 10, conversion_time = None, conversion_event = None,
                  ttc_final_obs_time = Some 10, ttc_duration = Some 0\<rparr>)]"
  by code_simp

text \<open>
  Neither stage raises on empty input: with \<open>df\<close> bound to the empty log of the
  script, the aggregation of that log is an empty table, and so is the life table of no
  records under the bucket function of the script.
\<close>

theorem empty_log_and_records_counterexample:
  "events_to_durations (Some (events_frame [])) (events_frame [])
     ''visitorid'' ''timestamp'' ''event'' [1] = Inr []
   \<and> survival ceil_days [] = []"
proof (intro conjI)
  show "events_to_durations (Some (events_frame [])) (events_frame [])
     ''visitorid'' ''timestamp'' ''event'' [1] = Inr []"
    by code_simp
  show "survival ceil_days [] = []"
    by (simp add: survival_def survival_of_def bucketed_def with_events_def counts_def
        group_keys_def)
qed

text \<open>
  Claim C8, amended. On empty input neither stage fails. The aggregation of an event log
  with no rows returns an empty durations table, provided that the log has the unit,
  timestamp and event columns, that \<open>df\<close> is bound to a frame that has them as well
  as a column named \<open>timestamp\<close>, that the column names of each frame are distinct, and
  that the unit column is neither the timestamp nor the event column. The life table of
  an empty collection of records is empty, for every bucket function.
\<close>

theorem empty_input_returns_empty:
  assumes "labelled event_log = []"
    and "distinct (columns event_log)"
    and "unit \<in> set (columns event_log)"
    and "timestamp \<in> set (columns event_log)"
    and "event \<in> set (columns event_log)"
    and "distinct (columns df)"
    and "unit \<in> set (columns df)"
    and "timestamp \<in> set (columns df)"
    and "event \<in> set (columns df)"
    and "''timestamp'' \<in> set (columns df)"
    and "unit \<noteq> timestamp"
    and "unit \<noteq> event"
  shows "events_to_durations (Some df) event_log unit timestamp event endpoints = Inr []
       \<and> survival bucket_fn [] = []"
proof (intro conjI)
  show "events_to_durations (Some df) event_log unit timestamp event endpoints = Inr []"
    using assms
    by (simp add: events_to_durations_def bind_err_def has_column_def global_df_def
        groupby_min_def groupby_keys_def loc_isin_def groupby_idxmin_def iloc_def
        set_index_def column_def assign_aligned_def Let_def)
  show "survival bucket_fn [] = []"
    by (simp add: survival_def survival_of_def bucketed_def with_events_def counts_def
        group_keys_def)
qed

theorem empty_input_returns_empty_witness:
  "labelled (events_frame []) = []
   \<and> distinct (columns (events_frame []))
   \<and> ''visitorid'' \<in> set (columns (events_frame []))
   \<and> ''timestamp'' \<in> set (columns (events_frame []))
   \<and> ''event'' \<in> set (columns (events_frame []))
   \<and> distinct (columns (events_frame [event_row 2 99 0]))
   \<and> ''visitorid'' \<in> set (columns (events_frame [event_row 2 99 0]))
   \<and> ''timestamp'' \<in> set (columns (events_frame [event_row 2 99 0]))
   \<and> ''event'' \<in> set (columns (events_frame [event_row 2 99 0]))
   \<and> ''visitorid'' \<noteq> ''timestamp''
   \<and> ''visitorid'' \<noteq> ''event''
   \<and> events_to_durations (Some (events_frame [event_row 2 99 0])) (events_frame [])
        ''visitorid'' ''timestamp'' ''event'' [1] = Inr []
   \<and> survival ceil_days [] = []"
proof -
  have h: "labelled (events_frame []) = []"
    "distinct (columns (events_frame []))"
    "''visitorid'' \<in> set (columns (events_frame []))"
    "''timestamp'' \<in> set (columns (events_frame []))"
    "''event'' \<in> set (columns (events_frame []))"
    "distinct (columns (events_frame [event_row 2 99 0]))"
    "''visitorid'' \<in> set (columns (events_frame [event_row 2 99 0]))"
    "''timestamp'' \<in> set (columns (events_frame [event_row 2 99 0]))"
    "''event'' \<in> set (columns (events_frame [event_row 2 99 0]))"
    "''timestamp'' \<in> set (columns (events_frame [event_row 2 99 0]))"
    "''visitorid'' \<noteq> ''timestamp''"
    "''visitorid'' \<noteq> ''event''"
    by (simp_all add: events_frame_def range_frame_def)
  from empty_input_returns_empty [OF h, of "[1]" ceil_days] h
  show ?thesis by simp
qed

text \<open>
  A log of one event whose type is not an endpoint type gives a censored record: no
  endpoint time, and the flag \<open>observed\<close> is false.
\<close>

theorem single_event_not_endpoint_counterexample:
  "events_to_durations (Some (events_frame [event_row 1 10 0])) (events_frame [event_row 1 10 0])
     ''visitorid'' ''timestamp'' ''event'' [1]
     = Inr [(1, \<lparr>entry_time = Some 10, endpoint = None, endpoint_time = None,
                  final_obs_time = Some 10, duration = Some 0\<rparr>)]
   \<and> \<not> observed \<lparr>entry_time = Some 10, endpoint = None, endpoint_time = None,
                    final_obs_time = Some 10, duration = Some 0\<rparr>"
  by code_simp

text \<open>
  Claim C9, amended. Take an event log of exactly one event, with the default index
  (the label of the row is its position 0) and distinct column names, among them the
  unit, timestamp and event columns and a column named \<open>timestamp\<close>, the unit column
  being neither the timestamp nor the event column; let the type of the event be in the
  endpoint set and \<open>df\<close> be bound to that log, as in the script. Then the aggregation
  returns exactly one record, for the unit of the event: its entry time, endpoint time
  and final observation time are the timestamp of the event, its duration is 0 and its
  endpoint is observed.
\<close>

theorem single_event_log_duration:
  assumes "r event \<in> set endpoints"
    and "distinct cols"
    and "unit \<in> set cols"
    and "timestamp \<in> set cols"
    and "event \<in> set cols"
    and "''timestamp'' \<in> set cols"
    and "unit \<noteq> timestamp"
    and "unit \<noteq> event"
  shows "events_to_durations (Some (range_frame cols [r])) (range_frame cols [r])
             unit timestamp event endpoints
           = Inr [(r unit, \<lparr>entry_time = Some (r timestamp),
                             endpoint = Some (r event),
                             endpoint_time = Some (r timestamp),
                             final_obs_time = Some (r timestamp),
                             duration = Some 0\<rparr>)]
       \<and> observed \<lparr>entry_time = Some (r timestamp),
                    endpoint = Some (r event),
                    endpoint_time = Some (r timestamp),
                    final_obs_time = Some (r timestamp),
                    duration = Some 0\<rparr>"
  using assms
  by (simp add: events_to_durations_def range_frame_single bind_err_def has_column_def
      global_df_def groupby_min_def groupby_keys_def rows_of_def series_min_def loc_isin_def
      groupby_idxmin_def idxmin_def iloc_def set_index_def column_def assign_aligned_def
      fillna_def minus_na_def observed_def notnull_def Let_def)

theorem single_event_log_duration_witness:
  "event_row 1 10 1 ''event'' \<in> set [1]
   \<and> distinct [''timestamp'', ''visitorid'', ''event'', ''itemid'', ''transactionid'']
   \<and> ''visitorid'' \<in> set [''timestamp'', ''visitorid'', ''event'', ''itemid'', ''transactionid'']
   \<and> ''timestamp'' \<in> set [''timestamp'', ''visitorid'', ''event'', ''itemid'', ''transactionid'']
   \<and> ''event'' \<in> set [''timestamp'', ''visitorid'', ''event'', ''itemid'', ''transactionid'']
   \<and> ''visitorid'' \<noteq> ''timestamp''
   \<and> ''visitorid'' \<noteq> ''event''
   \<and> events_to_durations (Some (events_frame [event_row 1 10 1])) (events_frame [event_row 1 10 1])
        ''visitorid'' ''timestamp'' ''event'' [1]
       = Inr [(1, \<lparr>entry_time = Some 10, endpoint = Some 1, endpoint_time = Some 10,
                    final_obs_time = Some 10, duration = Some 0\<rparr>)]"
proof -
  let ?cols = "[''timestamp'', ''visitorid'', ''event'', ''itemid'', ''transactionid'']"
  have h: "event_row 1 10 1 ''event'' \<in> set [1]"
    "distinct ?cols"
    "''visitorid'' \<in> set ?cols"
    "''timestamp'' \<in> set ?cols"
    "''event'' \<in> set ?cols"
    "''timestamp'' \<in> set ?cols"
    "''visitorid'' \<noteq> ''timestamp''"
    "''visitorid'' \<noteq> ''event''"
    by (simp_all add: event_row_def)
  from single_event_log_duration [where r = "event_row 1 10 1" and event = "''event''"
      and endpoints = "[1]" and cols = ?cols and unit = "''visitorid''"
      and timestamp = "''timestamp''", OF h] h
  show ?thesis by (simp add: event_row_def events_frame_def)
qed

text \<open>
  Outside these conditions the call raises: a log whose only row has another label than
  its position, and a log without a column named \<open>timestamp\<close>.
\<close>

lemma single_event_other_label_raises:
  "events_to_durations
       (Some \<lparr>columns = [''visitorid'', ''timestamp'', ''event''],
               labelled = [(5, event_row 1 10 1)]\<rparr>)
       \<lparr>columns = [''visitorid'', ''timestamp'', ''event''],
         labelled = [(5, event_row 1 10 1)]\<rparr>
       ''visitorid'' ''timestamp'' ''event'' [1]
     = Inl IndexError"
  by code_simp

lemma missing_timestamp_column_raises:
  "events_to_durations
       (Some (range_frame [''visitorid'', ''ts'', ''event''] [event_row 1 10 1]))
       (range_frame [''visitorid'', ''ts'', ''event''] [event_row 1 10 1])
       ''visitorid'' ''ts'' ''event'' [1]
     = Inl KeyError
   \<and> events_to_durations
       (Some (range_frame [''visitorid'', ''ts'', ''event''] []))
       (range_frame [''visitorid'', ''ts'', ''event''] [])
       ''visitorid'' ''ts'' ''event'' [1]
     = Inl KeyError"
  by code_simp

end
